theory Spec2Isabelle
  imports Complex_Main "HOL-Library.List_Lexorder" "HOL-Library.Char_ord" "HOL-Library.AList"
begin

section \<open>Python values used by soccerstan.py\<close>

text \<open>
  Team names are Python strings, compared lexicographically by code point: the order of
  \<open>char list\<close> given by \<open>List_Lexorder\<close> over \<open>Char_ord\<close>.
\<close>

type_synonym label = string

text \<open>
  The exceptions that the modelled code can raise. \<open>Raised n\<close> is any other exception,
  of class name \<open>n\<close>, coming out of a library call (unpickling, Stan compilation, sampling).
\<close>

datatype error = ValueError | OverflowError | FileNotFoundError | KeyError | TypeError
  | Raised string

text \<open>
  A Python dict keeps its keys in insertion order; storing under a key that is present
  replaces the value in place, storing under a new key appends. This is
  \<open>AList.update\<close> on an association list.
\<close>

type_synonym ('k, 'v) dict = "('k \<times> 'v) list"

definition dict_of :: "('k \<times> 'v) list \<Rightarrow> ('k, 'v) dict" where
  \<comment> \<open>a dict comprehension: the pairs are stored one after the other\<close>
  "dict_of kvs = fold (\<lambda>(k, v) d. AList.update k v d) kvs []"

definition items :: "('k, 'v) dict \<Rightarrow> ('k \<times> 'v) list" where
  "items d = d"

definition len :: "'a list \<Rightarrow> int" where
  "len xs = int (length xs)"

fun enumerate_from :: "int \<Rightarrow> 'a list \<Rightarrow> (int \<times> 'a) list" where
  "enumerate_from start [] = []"
| "enumerate_from start (x # xs) = (start, x) # enumerate_from (start + 1) xs"

definition np_unique :: "'a::linorder list \<Rightarrow> 'a list" where
  \<comment> \<open>numpy.unique: the sorted distinct elements\<close>
  "np_unique ar = sort (remdups ar)"

section \<open>stan\_map\<close>

text \<open>
  \<^verbatim>\<open>
  def stan_map(vector):
      unique_items = np.unique(vector)
      return {item: id_ for id_, item in enumerate(unique_items, start=1)}
  \<close>
\<close>

definition stan_map :: "label list \<Rightarrow> (label, int) dict" where
  "stan_map vector =
     (let unique_items = np_unique vector
      in dict_of (map (\<lambda>(i, item). (item, i)) (enumerate_from 1 unique_items)))"

section \<open>read\_data\<close>

text \<open>
  A goal-count cell as \<open>pandas.read_csv\<close> delivers it: not-a-number for a missing entry,
  an integer, a finite float (given by its exact rational value), an infinite float, or
  a string when the column holds text.
\<close>

datatype cell = NaN | IntV int | FloatV rat | InfV | StrV string

definition isnull :: "cell \<Rightarrow> bool" where
  "isnull c = (c = NaN)"

text \<open>
  Python's \<open>int(c)\<close>. A float is truncated towards zero; not-a-number raises ValueError
  and infinity raises OverflowError. The reading of a string as an integer literal is
  the builtin's own and is a parameter \<open>int_str\<close>; where it gives \<open>None\<close>, ValueError is
  raised.
\<close>

definition py_int :: "(string \<Rightarrow> int option) \<Rightarrow> cell \<Rightarrow> error + int" where
  "py_int int_str c =
     (case c of
        NaN \<Rightarrow> Inl ValueError
      | IntV i \<Rightarrow> Inr i
      | FloatV q \<Rightarrow> Inr (if 0 \<le> q then \<lfloor>q\<rfloor> else \<lceil>q\<rceil>)
      | InfV \<Rightarrow> Inl OverflowError
      | StrV s \<Rightarrow> (case int_str s of None \<Rightarrow> Inl ValueError | Some i \<Rightarrow> Inr i))"

text \<open>
  A reading of plain decimal numerals (an optional minus sign and digits), used as the
  string parameter in evaluated examples.
\<close>

definition digit_val :: "char \<Rightarrow> int option" where
  "digit_val c =
     (if CHR ''0'' \<le> c \<and> c \<le> CHR ''9'' then Some (int (of_char c) - 48) else None)"

fun digits_val :: "int \<Rightarrow> string \<Rightarrow> int option" where
  "digits_val acc [] = Some acc"
| "digits_val acc (c # cs) =
     (case digit_val c of None \<Rightarrow> None | Some d \<Rightarrow> digits_val (10 * acc + d) cs)"

definition decimal :: "string \<Rightarrow> int option" where
  "decimal s =
     (case s of
        [] \<Rightarrow> None
      | c # cs \<Rightarrow>
          if c = CHR ''-'' then (if cs = [] then None else map_option uminus (digits_val 0 cs))
          else digits_val 0 s)"

text \<open>
  The rows of the table. The goal columns hold cells in the file and integers after the
  coercion; the other columns of the file are carried along unchanged and are left out.
\<close>

record 'g row =
  home_team :: label
  away_team :: label
  home_goals :: 'g
  away_goals :: 'g

text \<open>
  \<open>Series.replace(team_map)\<close> goes through the keys of the dict in order and, for each,
  puts its identifier wherever the column, as it was at the start, equals the key; a
  value that no key matches stays as it is, so an identifier column holds labels or
  integers. The comparison is numpy's, which reads the key without its trailing NUL
  characters: a key matches the values equal to the key stripped of them, and where
  several keys match a value the last one decides.
\<close>

record 'g match = "'g row" +
  home_team_id :: "label + int"
  away_team_id :: "label + int"

definition rstrip_nul :: "string \<Rightarrow> string" where
  "rstrip_nul s = rev (dropWhile (\<lambda>c. c = CHR 0x00) (rev s))"

definition replace :: "(label, int) dict \<Rightarrow> label \<Rightarrow> label + int" where
  "replace to_replace v =
     (case filter (\<lambda>(k, i). rstrip_nul k = v) (items to_replace) of
        [] \<Rightarrow> Inl v
      | p # ps \<Rightarrow> Inr (snd (last (p # ps))))"

fun int_column :: "(string \<Rightarrow> int option) \<Rightarrow> cell list \<Rightarrow> error + int list" where
  \<comment> \<open>\<open>[int(c) for c in data[col]]\<close>: the first cell that fails raises\<close>
  "int_column int_str [] = Inr []"
| "int_column int_str (c # cs) =
     (case py_int int_str c of
        Inl e \<Rightarrow> Inl e
      | Inr i \<Rightarrow> (case int_column int_str cs of Inl e \<Rightarrow> Inl e | Inr is \<Rightarrow> Inr (i # is)))"

definition played :: "cell row list \<Rightarrow> cell row list" where
  \<comment> \<open>\<open>.loc[lambda df: ~pd.isnull(df['home_goals'])]\<close>\<close>
  "played df = filter (\<lambda>r. \<not> isnull (home_goals r)) df"

definition with_ids :: "(label, int) dict \<Rightarrow> 'g row \<Rightarrow> 'g match" where
  "with_ids team_map r =
     \<lparr>home_team = home_team r, away_team = away_team r,
      home_goals = home_goals r, away_goals = away_goals r,
      home_team_id = replace team_map (home_team r),
      away_team_id = replace team_map (away_team r)\<rparr>"

definition set_goals :: "cell match \<Rightarrow> int \<times> int \<Rightarrow> int match" where
  "set_goals r g =
     \<lparr>home_team = home_team r, away_team = away_team r,
      home_goals = fst g, away_goals = snd g,
      home_team_id = home_team_id r, away_team_id = away_team_id r\<rparr>"

text \<open>
  \<^verbatim>\<open>
  def read_data(fname):
      data = (pd.read_csv(fname).rename(...)
              .loc[lambda df: ~pd.isnull(df['home_goals'])])  # Remove future games
      team_map = stan_map(pd.concat([data['home_team'], data['away_team']]))
      data['home_team_id'] = data['home_team'].replace(team_map)
      data['away_team_id'] = data['away_team'].replace(team_map)
      for col in ('home_goals', 'away_goals'):
          data[col] = [int(c) for c in data[col]]
      return data, team_map
  \<close>
  The argument \<open>csv\<close> is the table read from the file, with its columns renamed.
\<close>

definition read_data ::
  "(string \<Rightarrow> int option) \<Rightarrow> cell row list \<Rightarrow> error + (int match list \<times> (label, int) dict)" where
  "read_data int_str csv =
     (let data = played csv;
          team_map = stan_map (map home_team data @ map away_team data);
          data = map (with_ids team_map) data
      in case int_column int_str (map home_goals data) of
           Inl e \<Rightarrow> Inl e
         | Inr hg \<Rightarrow>
             (case int_column int_str (map away_goals data) of
                Inl e \<Rightarrow> Inl e
              | Inr ag \<Rightarrow> Inr (map2 set_goals data (zip hg ag), team_map)))"

section \<open>fit\_model\<close>

text \<open>
  The model description that \<open>models.model_map\<close> supplies: its name, the path of the
  Stan program, the names of the scalar parameters and those of the team parameters.
\<close>

record soccer_model =
  name :: string
  modelfile :: string
  parameters :: "string list"
  team_parameters :: "string list"

text \<open>The dict \<open>model_data\<close> handed to Stan, one field for each of its keys.\<close>

record model_data =
  n_teams :: int
  n_games :: int
  home_team_col :: "(label + int) list"
  away_team_col :: "(label + int) list"
  home_goals_col :: "int list"
  away_goals_col :: "int list"

text \<open>
  A sampled parameter is a two-dimensional array, given by its number of columns and its
  rows (a one-dimensional array has one column); once tidied it is a data frame, with a
  label for each column.
\<close>

datatype 'v table = Array nat "'v list list" | Frame "label list" "'v list list"

text \<open>
  The library calls of \<open>fit_model\<close> are parameters: \<open>stan.build\<close> compiles a program for
  the data into a model of type \<open>'m\<close>, and sampling followed by \<open>fit.extract()\<close> gives a dict
  of arrays. Either may raise.
\<close>

record ('m, 'v) stan =
  build :: "string \<Rightarrow> model_data \<Rightarrow> error + 'm"
  sample_extract :: "'m \<Rightarrow> model_data \<Rightarrow> (string \<times> int) list \<Rightarrow> error + (string, 'v table) dict"

text \<open>
  The file system as the function sees it: the text files that can be read, and for each
  path of the cache what \<open>joblib.load\<close> gives there (no entry when the file does not
  exist, an exception when it cannot be unpickled), and the exception that
  \<open>joblib.dump\<close> raises, if it does. The \<open>trace\<close> records the loads, compilations and
  stores that were started, in order; it is not part of the program.
\<close>

datatype event = Load string | Compile | Store string

record 'm world =
  texts :: "string \<rightharpoonup> string"
  cache :: "string \<rightharpoonup> error + 'm"
  dump_error :: "error option"
  trace :: "event list"

definition read_text :: "'m world \<Rightarrow> string \<Rightarrow> error + string" where
  \<comment> \<open>\<open>open(path, "rt")\<close> and \<open>read()\<close>\<close>
  "read_text w path = (case texts w path of None \<Rightarrow> Inl FileNotFoundError | Some s \<Rightarrow> Inr s)"

definition joblib_load :: "string \<Rightarrow> 'm world \<Rightarrow> (error + 'm) \<times> 'm world" where
  "joblib_load path w =
     (case cache w path of None \<Rightarrow> Inl FileNotFoundError | Some r \<Rightarrow> r,
      w\<lparr>trace := trace w @ [Load path]\<rparr>)"

definition joblib_dump :: "'m \<Rightarrow> string \<Rightarrow> 'm world \<Rightarrow> (error + unit) \<times> 'm world" where
  "joblib_dump sm path w =
     (case dump_error w of
        Some e \<Rightarrow> (Inl e, w\<lparr>trace := trace w @ [Store path]\<rparr>)
      | None \<Rightarrow> (Inr (), w\<lparr>cache := (cache w)(path \<mapsto> Inr sm), trace := trace w @ [Store path]\<rparr>))"

definition stan_build ::
  "('m, 'v) stan \<Rightarrow> string \<Rightarrow> model_data \<Rightarrow> 'm world \<Rightarrow> (error + 'm) \<times> 'm world" where
  "stan_build stan program_code data w =
     (build stan program_code data, w\<lparr>trace := trace w @ [Compile]\<rparr>)"

definition path_join :: "string \<Rightarrow> string \<Rightarrow> string" where
  \<comment> \<open>\<open>os.path.join\<close> of two components (POSIX)\<close>
  "path_join a b =
     (if b \<noteq> [] \<and> hd b = CHR ''/'' then b
      else if a = [] \<or> last a = CHR ''/'' then a @ b
      else a @ ''/'' @ b)"

definition cache_file :: "string \<Rightarrow> string \<Rightarrow> string" where
  \<comment> \<open>\<open>os.path.join(os.path.dirname(__file__), '../cache/{0}.pkl'.format(model.name))\<close>;
      \<open>dirname\<close> is the directory of the module\<close>
  "cache_file dirname nm = path_join dirname (''../cache/'' @ nm @ ''.pkl'')"

text \<open>
  \<^verbatim>\<open>
      if use_cache:
          cache_file = os.path.join(os.path.dirname(__file__),
                                    '../cache/{0}.pkl'.format(model.name))
          try:
              stan_model = joblib.load(cache_file)
          except FileNotFoundError:
              stan_model = stan.build(program_code=stan_program, data=model_data)
              joblib.dump(stan_model, cache_file)
      else:
          stan_model = stan.build(program_code=stan_program, data=model_data)
  \<close>
\<close>

definition build_model ::
  "('m, 'v) stan \<Rightarrow> string \<Rightarrow> soccer_model \<Rightarrow> string \<Rightarrow> model_data \<Rightarrow> bool \<Rightarrow> 'm world
     \<Rightarrow> (error + 'm) \<times> 'm world" where
  "build_model stan dirname model stan_program data use_cache w =
     (if use_cache then
        (case joblib_load (cache_file dirname (name model)) w of
           (Inr stan_model, w1) \<Rightarrow> (Inr stan_model, w1)
         | (Inl e, w1) \<Rightarrow>
             if e = FileNotFoundError then
               (case stan_build stan stan_program data w1 of
                  (Inl e', w2) \<Rightarrow> (Inl e', w2)
                | (Inr stan_model, w2) \<Rightarrow>
                    (case joblib_dump stan_model (cache_file dirname (name model)) w2 of
                       (Inl e', w3) \<Rightarrow> (Inl e', w3)
                     | (Inr u, w3) \<Rightarrow> (Inr stan_model, w3)))
             else (Inl e, w1))
      else stan_build stan stan_program data w)"

definition getitem :: "('k, 'v) dict \<Rightarrow> 'k \<Rightarrow> error + 'v" where
  \<comment> \<open>\<open>d[k]\<close>\<close>
  "getitem d k = (case map_of d k of None \<Rightarrow> Inl KeyError | Some v \<Rightarrow> Inr v)"

definition reverse_of :: "(label, int) dict \<Rightarrow> (int, label) dict" where
  \<comment> \<open>\<open>{v: k for k, v in team_map.items()}\<close>\<close>
  "reverse_of team_map = dict_of (map (\<lambda>(k, v). (v, k)) (items team_map))"

fun column_labels :: "(int, label) dict \<Rightarrow> int list \<Rightarrow> error + label list" where
  \<comment> \<open>\<open>[reverse_map[id_ + 1] for id_ in df.columns]\<close>\<close>
  "column_labels reverse_map [] = Inr []"
| "column_labels reverse_map (i # is) =
     (case getitem reverse_map (i + 1) of
        Inl e \<Rightarrow> Inl e
      | Inr l \<Rightarrow>
          (case column_labels reverse_map is of Inl e \<Rightarrow> Inl e | Inr ls \<Rightarrow> Inr (l # ls)))"

text \<open>
  \<open>pd.DataFrame\<close> of an array numbers the columns from 0; of a data frame it keeps the
  labels, and adding 1 to a label raises TypeError.
\<close>

definition relabel :: "(int, label) dict \<Rightarrow> 'v table \<Rightarrow> error + 'v table" where
  "relabel reverse_map t =
     (case t of
        Array k rows \<Rightarrow>
          (case column_labels reverse_map (map int [0..<k]) of
             Inl e \<Rightarrow> Inl e
           | Inr ls \<Rightarrow> Inr (Frame ls rows))
      | Frame cols rows \<Rightarrow> if cols = [] then Inr (Frame [] rows) else Inl TypeError)"

text \<open>
  \<^verbatim>\<open>
      reverse_map = {v: k for k, v in team_map.items()}
      for param in model.team_parameters:
          df = pd.DataFrame(output[param])
          df.columns = [reverse_map[id_ + 1] for id_ in df.columns]
          output[param] = df
  \<close>
\<close>

fun tidy ::
  "(int, label) dict \<Rightarrow> string list \<Rightarrow> (string, 'v table) dict \<Rightarrow> error + (string, 'v table) dict" where
  "tidy reverse_map [] output = Inr output"
| "tidy reverse_map (param # params) output =
     (case getitem output param of
        Inl e \<Rightarrow> Inl e
      | Inr t \<Rightarrow>
          (case relabel reverse_map t of
             Inl e \<Rightarrow> Inl e
           | Inr df \<Rightarrow> tidy reverse_map params (AList.update param df output)))"

definition fit_model ::
  "('m, 'v) stan \<Rightarrow> string \<Rightarrow> int match list \<Rightarrow> (label, int) dict \<Rightarrow> soccer_model \<Rightarrow> bool
     \<Rightarrow> (string \<times> int) list \<Rightarrow> 'm world \<Rightarrow> (error + (string, 'v table) dict) \<times> 'm world" where
  "fit_model stan dirname data team_map model use_cache kwargs w =
     (let md = \<lparr>n_teams = len team_map, n_games = len data,
                home_team_col = map home_team_id data, away_team_col = map away_team_id data,
                home_goals_col = map home_goals data, away_goals_col = map away_goals data\<rparr>
      in case read_text w (modelfile model) of
           Inl e \<Rightarrow> (Inl e, w)
         | Inr stan_program \<Rightarrow>
             (case build_model stan dirname model stan_program md use_cache w of
                (Inl e, w1) \<Rightarrow> (Inl e, w1)
              | (Inr stan_model, w1) \<Rightarrow>
                  (case sample_extract stan stan_model md kwargs of
                     Inl e \<Rightarrow> (Inl e, w1)
                   | Inr output \<Rightarrow>
                       (tidy (reverse_of team_map) (team_parameters model) output, w1))))"


text \<open>The number of columns and the values of a table, whichever form it has.\<close>

fun ncols :: "'v table \<Rightarrow> nat" where
  "ncols (Array k rows) = k"
| "ncols (Frame cols rows) = length cols"

fun values_of :: "'v table \<Rightarrow> 'v list list" where
  "values_of (Array k rows) = rows"
| "values_of (Frame cols rows) = rows"


section \<open>The encoder\<close>

lemma update_fresh: "k \<notin> fst ` set d \<Longrightarrow> AList.update k v d = d @ [(k, v)]"
  by (induction d) auto

lemma fold_update_distinct:
  "distinct (map fst (d @ kvs)) \<Longrightarrow> fold (\<lambda>(k, v) d. AList.update k v d) kvs d = d @ kvs"
proof (induction kvs arbitrary: d)
  case Nil
  then show ?case by simp
next
  case (Cons p kvs)
  obtain k v where p: "p = (k, v)" by (cases p)
  from Cons.prems have fresh: "k \<notin> fst ` set d" by (auto simp: p)
  from Cons.prems have "distinct (map fst ((d @ [(k, v)]) @ kvs))" by (simp add: p)
  from Cons.IH[OF this] show ?case by (simp add: p update_fresh[OF fresh])
qed

lemma dict_of_distinct: "distinct (map fst kvs) \<Longrightarrow> dict_of kvs = kvs"
  using fold_update_distinct[of "[]" kvs] by (simp add: dict_of_def)

lemma enumerate_from_eq:
  "enumerate_from n xs = zip (map (\<lambda>i. n + int i) [0..<length xs]) xs"
proof (induction xs arbitrary: n)
  case Nil
  then show ?case by simp
next
  case (Cons x xs)
  have "map (\<lambda>i. n + int i) [0..<Suc (length xs)] = n # map (\<lambda>i. n + 1 + int i) [0..<length xs]"
    by (simp add: upt_conv_Cons map_Suc_upt[symmetric] del: upt_Suc)
  then show ?case by (simp add: Cons.IH)
qed

lemma np_unique_props: "sorted (np_unique L)" "distinct (np_unique L)" "set (np_unique L) = set L"
  by (simp_all add: np_unique_def)

lemma stan_map_zip:
  "stan_map L = zip (np_unique L) (map (\<lambda>i. 1 + int i) [0..<length (np_unique L)])"
proof -
  let ?us = "np_unique L"
  let ?ids = "map (\<lambda>i. 1 + int i) [0..<length ?us]"
  have e: "map (\<lambda>(i, item). (item, i)) (enumerate_from 1 ?us) = zip ?us ?ids"
    unfolding enumerate_from_eq by (rule nth_equalityI) simp_all
  have "distinct (map fst (zip ?us ?ids))" by (simp add: np_unique_props)
  then show ?thesis by (simp add: stan_map_def e dict_of_distinct)
qed

lemma stan_map_keys: "map fst (stan_map L) = np_unique L"
  by (simp add: stan_map_zip)

lemma stan_map_nth:
  "i < length (np_unique L) \<Longrightarrow> stan_map L ! i = (np_unique L ! i, 1 + int i)"
  by (simp add: stan_map_zip)

lemma stan_map_length: "length (stan_map L) = card (set L)"
proof -
  have "length (stan_map L) = length (np_unique L)" by (simp add: stan_map_zip)
  also have "\<dots> = card (set (np_unique L))" using distinct_card[OF np_unique_props(2)[of L]] by simp
  finally show ?thesis by (simp add: np_unique_props)
qed

lemma stan_map_lookup:
  "i < length (np_unique L) \<Longrightarrow> map_of (stan_map L) (np_unique L ! i) = Some (1 + int i)"
proof -
  assume i: "i < length (np_unique L)"
  have d: "distinct (map fst (stan_map L))" by (simp add: stan_map_keys np_unique_props)
  have "(np_unique L ! i, 1 + int i) \<in> set (stan_map L)"
    using stan_map_nth[OF i] i by (metis length_map nth_mem stan_map_keys)
  with d show ?thesis by simp
qed

lemma upto_from_one: "[1..int n] = map (\<lambda>i. 1 + int i) [0..<n]"
proof (induction n)
  case 0
  then show ?case by simp
next
  case (Suc n)
  have "[1..int (Suc n)] = [1..int n] @ [int n + 1]"
    using upto_rec2[of 1 "int (Suc n)"] by (simp add: add.commute)
  then show ?case by (simp add: Suc.IH add.commute)
qed

lemma np_unique_length: "length (np_unique L) = card (set L)"
  using distinct_card[OF np_unique_props(2)[of L]] by (simp add: np_unique_props)

lemma stan_map_sorted_zip:
  "stan_map L = zip (sorted_list_of_set (set L)) [1..int (card (set L))]"
  by (simp add: stan_map_zip upto_from_one np_unique_length)
     (simp add: np_unique_def sorted_list_of_set_sort_remdups)

lemma stan_map_dom: "dom (map_of (stan_map L)) = set L"
  by (simp add: dom_map_of_conv_image_fst stan_map_keys np_unique_props flip: set_map)

lemma stan_map_bij:
  "bij_betw (\<lambda>l. the (map_of (stan_map L) l)) (set L) {1..int (card (set L))}"
proof -
  let ?us = "np_unique L"
  let ?f = "\<lambda>l. the (map_of (stan_map L) l)"
  have idx: "\<exists>i < length ?us. l = ?us ! i \<and> ?f l = 1 + int i" if "l \<in> set L" for l
  proof -
    from that have "l \<in> set ?us" by (simp add: np_unique_props)
    then obtain i where "i < length ?us" "?us ! i = l" by (auto simp: in_set_conv_nth)
    then show ?thesis using stan_map_lookup[of i L] by auto
  qed
  have inj: "inj_on ?f (set L)"
  proof (rule inj_onI)
    fix a b assume "a \<in> set L" "b \<in> set L" and eq: "?f a = ?f b"
    then obtain i j where "a = ?us ! i" "?f a = 1 + int i" "b = ?us ! j" "?f b = 1 + int j"
      using idx by metis
    with eq show "a = b" by simp
  qed
  have img: "?f ` set L = {1..int (card (set L))}"
  proof (rule set_eqI, rule iffI)
    fix k assume "k \<in> ?f ` set L"
    then obtain l where "l \<in> set L" "k = ?f l" by auto
    then obtain i where "i < length ?us" "k = 1 + int i" using idx by metis
    then show "k \<in> {1..int (card (set L))}" by (simp add: np_unique_length)
  next
    fix k assume k: "k \<in> {1..int (card (set L))}"
    let ?i = "nat (k - 1)"
    from k have "?i < card (set L)" by (simp add: nat_less_iff)
    then have i: "?i < length ?us" by (simp add: np_unique_length)
    then have "?us ! ?i \<in> set L" using nth_mem[OF i] by (simp add: np_unique_props)
    moreover have "?f (?us ! ?i) = k" using stan_map_lookup[OF i] k by simp
    ultimately show "k \<in> ?f ` set L" by force
  qed
  from inj img show ?thesis by (simp add: bij_betw_def)
qed

text \<open>
  Claim C2. For every sequence of labels, \<open>stan_map\<close> is a bijection from the distinct
  labels onto the integers from 1 to their number, given in sorted label order; it
  depends only on the set of labels, and the empty sequence gives the empty dict.
\<close>

theorem stan_map_bijection:
  "bij_betw (\<lambda>l. the (map_of (stan_map L) l)) (set L) {1..int (card (set L))}
   \<and> dom (map_of (stan_map L)) = set L
   \<and> stan_map L = zip (sorted_list_of_set (set L)) [1..int (card (set L))]
   \<and> (\<forall>L'. set L' = set L \<longrightarrow> stan_map L' = stan_map L)
   \<and> stan_map [] = []"
proof -
  have "stan_map L' = stan_map L" if "set L' = set L" for L'
    using that by (simp add: stan_map_sorted_zip)
  moreover have "stan_map [] = []" by (simp add: stan_map_sorted_zip)
  ultimately show ?thesis
    using stan_map_bij[of L] stan_map_dom[of L] stan_map_sorted_zip[of L] by blast
qed

theorem stan_map_bijection_witness:
  "set [''Leeds'', ''Arsenal''] = set [''Leeds'', ''Arsenal'', ''Leeds'']
   \<and> stan_map [''Leeds'', ''Arsenal''] = stan_map [''Leeds'', ''Arsenal'', ''Leeds'']
   \<and> stan_map [''Leeds'', ''Arsenal'', ''Leeds''] = [(''Arsenal'', 1), (''Leeds'', 2)]"
proof -
  have s: "set [''Leeds'', ''Arsenal''] = set [''Leeds'', ''Arsenal'', ''Leeds'']" by auto
  have v: "stan_map [''Leeds'', ''Arsenal''] = [(''Arsenal'', 1), (''Leeds'', 2)]"
    by code_simp
  from stan_map_bijection[of "[''Leeds'', ''Arsenal'', ''Leeds'']"] s
  have "stan_map [''Leeds'', ''Arsenal''] = stan_map [''Leeds'', ''Arsenal'', ''Leeds'']"
    by blast
  with s v show ?thesis by simp
qed



section \<open>The normalizer\<close>

lemma int_column_Inr:
  "int_column p cs = Inr ns \<longleftrightarrow> map (py_int p) cs = map Inr ns"
proof (induction cs arbitrary: ns)
  case Nil
  then show ?case by auto
next
  case (Cons c cs)
  show ?case
  proof (cases "py_int p c")
    case (Inl e)
    then show ?thesis by (cases ns) auto
  next
    case i: (Inr i)
    show ?thesis
    proof (cases "int_column p cs")
      case (Inl e)
      have "map (py_int p) cs \<noteq> map Inr ms" for ms
        using Cons.IH[of ms] Inl by simp
      with i Inl show ?thesis by (cases ns) auto
    next
      case (Inr ms)
      have "map (py_int p) cs = map Inr ms"
        using Cons.IH[of ms] Inr by simp
      with i Inr show ?thesis by (cases ns) (auto simp: inj_map_eq_map)
    qed
  qed
qed

lemma int_column_Inl:
  "int_column p cs = Inl e \<Longrightarrow> \<exists>c \<in> set cs. py_int p c = Inl e"
  by (induction cs) (auto split: sum.splits)

lemma int_column_fails:
  "c \<in> set cs \<Longrightarrow> py_int p c = Inl e \<Longrightarrow> \<exists>e'. int_column p cs = Inl e'"
  by (induction cs) (auto split: sum.splits)

lemma with_ids_sel [simp]:
  "home_team (with_ids tm r) = home_team r"
  "away_team (with_ids tm r) = away_team r"
  "home_goals (with_ids tm r) = home_goals r"
  "away_goals (with_ids tm r) = away_goals r"
  "home_team_id (with_ids tm r) = replace tm (home_team r)"
  "away_team_id (with_ids tm r) = replace tm (away_team r)"
  by (simp_all add: with_ids_def)

lemma set_goals_sel [simp]:
  "home_team (set_goals m g) = home_team m"
  "away_team (set_goals m g) = away_team m"
  "home_goals (set_goals m g) = fst g"
  "away_goals (set_goals m g) = snd g"
  "home_team_id (set_goals m g) = home_team_id m"
  "away_team_id (set_goals m g) = away_team_id m"
  by (simp_all add: set_goals_def)

lemma read_data_unfold:
  "read_data p T =
     (case int_column p (map home_goals (played T)) of
        Inl e \<Rightarrow> Inl e
      | Inr hg \<Rightarrow>
          (case int_column p (map away_goals (played T)) of
             Inl e \<Rightarrow> Inl e
           | Inr ag \<Rightarrow>
               Inr (map2 set_goals (map (with_ids (stan_map (map home_team (played T) @ map away_team (played T)))) (played T)) (zip hg ag),
                    stan_map (map home_team (played T) @ map away_team (played T)))))"
  by (simp add: read_data_def Let_def comp_def cong: sum.case_cong)

lemma read_data_Inr:
  assumes "read_data p T = Inr (recs, tm)"
  obtains hg ag where
    "map (py_int p) (map home_goals (played T)) = map Inr hg"
    "map (py_int p) (map away_goals (played T)) = map Inr ag"
    "tm = stan_map (map home_team (played T) @ map away_team (played T))"
    "recs = map2 set_goals (map (with_ids tm) (played T)) (zip hg ag)"
  using assms unfolding read_data_unfold
  by (auto split: sum.splits simp: int_column_Inr)

lemma read_data_Inl:
  assumes "read_data p T = Inl e"
  shows "\<exists>r \<in> set (played T). py_int p (home_goals r) = Inl e \<or> py_int p (away_goals r) = Inl e"
  using assms unfolding read_data_unfold
  by (auto split: sum.splits dest!: int_column_Inl)

lemma read_data_fails:
  assumes "r \<in> set (played T)"
    and "py_int p (home_goals r) = Inl e \<or> py_int p (away_goals r) = Inl e"
  shows "\<exists>e'. read_data p T = Inl e'"
proof (cases "int_column p (map home_goals (played T))")
  case (Inl a)
  then show ?thesis by (simp add: read_data_unfold)
next
  case (Inr hg)
  then have "map (py_int p) (map home_goals (played T)) = map Inr hg" by (simp add: int_column_Inr)
  then have "py_int p (home_goals r) \<in> set (map Inr hg)" using assms(1)
    by (metis (no_types, lifting) image_eqI list.set_map)
  then have "py_int p (away_goals r) = Inl e" using assms(2) by auto
  then obtain e' where "int_column p (map away_goals (played T)) = Inl e'"
    using int_column_fails[of "away_goals r" "map away_goals (played T)" p e] assms(1) by auto
  then show ?thesis using Inr by (simp add: read_data_unfold)
qed







text \<open>
  Claim C1, as the code has it. The label set of the returned dict is the union of the
  home and away columns over the rows that have a home goal count; a label that occurs
  only in rows without one receives no identifier.
\<close>

theorem read_data_labels_from_played:
  assumes "read_data int_str T = Inr (recs, tm)"
  shows "tm = stan_map (map home_team (filter (\<lambda>r. \<not> isnull (home_goals r)) T)
                        @ map away_team (filter (\<lambda>r. \<not> isnull (home_goals r)) T))
         \<and> dom (map_of tm) = home_team ` {r \<in> set T. \<not> isnull (home_goals r)}
                              \<union> away_team ` {r \<in> set T. \<not> isnull (home_goals r)}"
proof -
  from assms obtain hg ag where
    tm: "tm = stan_map (map home_team (played T) @ map away_team (played T))"
    by (rule read_data_Inr)
  then show ?thesis by (auto simp: stan_map_dom played_def)
qed

theorem read_data_labels_from_played_witness:
  "read_data decimal
     [\<lparr>home_team = ''Arsenal'', away_team = ''Leeds'', home_goals = FloatV 2, away_goals = FloatV 1\<rparr>,
      \<lparr>home_team = ''Chelsea'', away_team = ''Arsenal'', home_goals = NaN, away_goals = NaN\<rparr>]
   = Inr ([\<lparr>home_team = ''Arsenal'', away_team = ''Leeds'', home_goals = 2, away_goals = 1,
            home_team_id = Inr 1, away_team_id = Inr 2\<rparr>],
          [(''Arsenal'', 1), (''Leeds'', 2)])
   \<and> dom (map_of [(''Arsenal'', 1::int), (''Leeds'', 2)]) = {''Arsenal'', ''Leeds''}"
proof -
  let ?T = "[\<lparr>home_team = ''Arsenal'', away_team = ''Leeds'', home_goals = FloatV 2, away_goals = FloatV 1\<rparr>,
      \<lparr>home_team = ''Chelsea'', away_team = ''Arsenal'', home_goals = NaN, away_goals = NaN\<rparr>]"
  have r: "read_data decimal ?T
     = Inr ([\<lparr>home_team = ''Arsenal'', away_team = ''Leeds'', home_goals = 2, away_goals = 1,
            home_team_id = Inr 1, away_team_id = Inr 2\<rparr>],
          [(''Arsenal'', 1), (''Leeds'', 2)])"
    by code_simp
  have f: "{r \<in> set ?T. \<not> isnull (home_goals r)} = {?T ! 0}"
    by (auto simp: isnull_def)
  from read_data_labels_from_played[OF r]
  have "dom (map_of [(''Arsenal'', 1::int), (''Leeds'', 2)])
          = home_team ` {r \<in> set ?T. \<not> isnull (home_goals r)}
            \<union> away_team ` {r \<in> set ?T. \<not> isnull (home_goals r)}"
    by blast
  also have "\<dots> = {''Arsenal'', ''Leeds''}" unfolding f by (simp add: insert_commute)
  finally show ?thesis using r by simp
qed

theorem read_data_all_rows_counterexample:
  "read_data decimal
     [\<lparr>home_team = ''Arsenal'', away_team = ''Leeds'', home_goals = FloatV 2, away_goals = FloatV 1\<rparr>,
      \<lparr>home_team = ''Chelsea'', away_team = ''Arsenal'', home_goals = NaN, away_goals = NaN\<rparr>]
   = Inr ([\<lparr>home_team = ''Arsenal'', away_team = ''Leeds'', home_goals = 2, away_goals = 1,
            home_team_id = Inr 1, away_team_id = Inr 2\<rparr>],
          [(''Arsenal'', 1), (''Leeds'', 2)])
   \<and> map_of [(''Arsenal'', 1::int), (''Leeds'', 2)] ''Chelsea'' = None"
  by code_simp




lemma py_int_errors: "py_int int_str c = Inl e \<Longrightarrow> e = ValueError \<or> e = OverflowError"
  by (auto simp: py_int_def split: cell.splits option.splits)

text \<open>
  Claim C4. If a row that keeps its place (its home goal count is not missing) has a goal
  count that \<open>int\<close> cannot convert, \<open>read_data\<close> fails with the exception that \<open>int\<close>
  raised on a retained goal count: ValueError, or OverflowError for an infinite float.
\<close>

theorem read_data_malformed_score:
  assumes "r \<in> set T" and "\<not> isnull (home_goals r)"
    and "py_int int_str (home_goals r) = Inl e \<or> py_int int_str (away_goals r) = Inl e"
  shows "\<exists>e'. read_data int_str T = Inl e' \<and> (e' = ValueError \<or> e' = OverflowError)
           \<and> (\<exists>r' \<in> set T. \<not> isnull (home_goals r')
                 \<and> (py_int int_str (home_goals r') = Inl e' \<or> py_int int_str (away_goals r') = Inl e'))"
proof -
  from assms(1,2) have "r \<in> set (played T)" by (simp add: played_def)
  from read_data_fails[OF this assms(3)] obtain e' where e': "read_data int_str T = Inl e'" ..
  from read_data_Inl[OF e'] obtain r' where
    r': "r' \<in> set (played T)"
      "py_int int_str (home_goals r') = Inl e' \<or> py_int int_str (away_goals r') = Inl e'"
    by blast
  then have "e' = ValueError \<or> e' = OverflowError" using py_int_errors by blast
  with e' r' show ?thesis by (auto simp: played_def)
qed

theorem read_data_malformed_score_witness:
  "read_data decimal
     [\<lparr>home_team = ''Arsenal'', away_team = ''Leeds'', home_goals = StrV ''2'', away_goals = StrV ''1''\<rparr>,
      \<lparr>home_team = ''Leeds'', away_team = ''Arsenal'', home_goals = StrV ''x'', away_goals = StrV ''0''\<rparr>]
   = Inl ValueError"
proof -
  let ?r = "\<lparr>home_team = ''Leeds'', away_team = ''Arsenal'', home_goals = StrV ''x'', away_goals = StrV ''0''\<rparr>"
  let ?T = "[\<lparr>home_team = ''Arsenal'', away_team = ''Leeds'', home_goals = StrV ''2'', away_goals = StrV ''1''\<rparr>, ?r]"
  have 1: "?r \<in> set ?T" by simp
  have 2: "\<not> isnull (home_goals ?r)" by (simp add: isnull_def)
  have 3: "py_int decimal (home_goals ?r) = Inl ValueError \<or> py_int decimal (away_goals ?r) = Inl ValueError"
    by code_simp
  have 4: "read_data decimal ?T \<noteq> Inl OverflowError" by code_simp
  from read_data_malformed_score[OF 1 2 3] 4 show ?thesis by auto
qed

text \<open>
  Claim C9. A row with a home goal count and no away goal count passes the filter, which
  looks at the home goal count alone; \<open>int\<close> raises ValueError on its away goal count,
  and \<open>read_data\<close> fails instead of leaving the row out.
\<close>

theorem read_data_missing_away_goals:
  assumes "r \<in> set T" and "\<not> isnull (home_goals r)" and "isnull (away_goals r)"
  shows "r \<in> set (played T) \<and> py_int int_str (away_goals r) = Inl ValueError
         \<and> (\<exists>e. read_data int_str T = Inl e)"
proof -
  from assms(1,2) have p: "r \<in> set (played T)" by (simp add: played_def)
  from assms(3) have a: "py_int int_str (away_goals r) = Inl ValueError"
    by (simp add: isnull_def py_int_def)
  then have "py_int int_str (home_goals r) = Inl ValueError \<or> py_int int_str (away_goals r) = Inl ValueError"
    by simp
  from read_data_fails[OF p this] p a show ?thesis by simp
qed

theorem read_data_missing_away_goals_witness:
  "\<lparr>home_team = ''Arsenal'', away_team = ''Leeds'', home_goals = FloatV 2, away_goals = NaN\<rparr>
     \<in> set (played [\<lparr>home_team = ''Arsenal'', away_team = ''Leeds'', home_goals = FloatV 2, away_goals = NaN\<rparr>])
   \<and> (\<exists>e. read_data decimal
        [\<lparr>home_team = ''Arsenal'', away_team = ''Leeds'', home_goals = FloatV 2, away_goals = NaN\<rparr>] = Inl e)"
proof -
  let ?r = "\<lparr>home_team = ''Arsenal'', away_team = ''Leeds'', home_goals = FloatV 2, away_goals = NaN\<rparr>"
  have 1: "?r \<in> set [?r]" by simp
  have 2: "\<not> isnull (home_goals ?r)" by (simp add: isnull_def)
  have 3: "isnull (away_goals ?r)" by (simp add: isnull_def)
  from read_data_missing_away_goals[OF 1 2 3, of decimal] show ?thesis by simp
qed



section \<open>The cached build\<close>

lemma build_model_hit:
  assumes "cache w (cache_file dirname (name model)) = Some (Inr sm)"
  shows "build_model stan dirname model stan_program data True w =
           (Inr sm, w\<lparr>trace := trace w @ [Load (cache_file dirname (name model))]\<rparr>)"
  using assms by (simp add: build_model_def joblib_load_def)

lemma build_model_miss:
  assumes "cache w (cache_file dirname (name model)) = None"
    and "build stan stan_program data = Inr sm"
    and "dump_error w = None"
  shows "build_model stan dirname model stan_program data True w =
           (Inr sm, w\<lparr>cache := (cache w)(cache_file dirname (name model) \<mapsto> Inr sm),
                      trace := trace w @ [Load (cache_file dirname (name model)), Compile,
                                          Store (cache_file dirname (name model))]\<rparr>)"
  using assms by (simp add: build_model_def joblib_load_def stan_build_def joblib_dump_def)

lemma build_model_hits:
  assumes "cache w (cache_file dirname (name model)) = Some (Inr sm)"
  shows "((\<lambda>w. snd (build_model stan dirname model stan_program data True w)) ^^ n) w =
           w\<lparr>trace := trace w @ replicate n (Load (cache_file dirname (name model)))\<rparr>"
proof (induction n)
  case 0
  then show ?case by simp
next
  case (Suc n)
  let ?p = "cache_file dirname (name model)"
  let ?wn = "w\<lparr>trace := trace w @ replicate n (Load ?p)\<rparr>"
  have "cache ?wn ?p = Some (Inr sm)" using assms by simp
  from build_model_hit[OF this, where stan = stan and stan_program = stan_program and data = data]
  show ?case by (simp add: Suc.IH replicate_append_same)
qed

text \<open>
  Claim C5. With \<open>use_cache\<close> true, no file at the cache location, a program that compiles
  and a store that works, the call loads (not found), compiles once and stores the
  compiled model at \<open>cache_file\<close>, a path made from the model's name; after it, any number
  of further calls for a model of that name each load the stored model and do nothing
  else, whatever their program and data.
\<close>

theorem build_model_cache:
  assumes "cache w (cache_file dirname (name model)) = None"
    and "build stan stan_program data = Inr sm"
    and "dump_error w = None"
    and "name model' = name model"
  shows "build_model stan dirname model stan_program data True w =
           (Inr sm, w\<lparr>cache := (cache w)(cache_file dirname (name model) \<mapsto> Inr sm),
                      trace := trace w @ [Load (cache_file dirname (name model)), Compile,
                                          Store (cache_file dirname (name model))]\<rparr>)
         \<and> (\<forall>n. build_model stan dirname model' stan_program' data' True
                  (((\<lambda>w. snd (build_model stan dirname model' stan_program' data' True w)) ^^ n)
                     (snd (build_model stan dirname model stan_program data True w)))
               = (Inr sm,
                  w\<lparr>cache := (cache w)(cache_file dirname (name model) \<mapsto> Inr sm),
                    trace := trace w @ [Load (cache_file dirname (name model)), Compile,
                                        Store (cache_file dirname (name model))]
                             @ replicate (Suc n) (Load (cache_file dirname (name model)))\<rparr>))"
proof -
  let ?p = "cache_file dirname (name model)"
  let ?w1 = "w\<lparr>cache := (cache w)(?p \<mapsto> Inr sm), trace := trace w @ [Load ?p, Compile, Store ?p]\<rparr>"
  have first: "build_model stan dirname model stan_program data True w = (Inr sm, ?w1)"
    by (rule build_model_miss[OF assms(1-3)])
  have warm: "cache ?w1 (cache_file dirname (name model')) = Some (Inr sm)"
    by (simp add: assms(4))
  have later: "build_model stan dirname model' stan_program' data' True
                 (((\<lambda>w. snd (build_model stan dirname model' stan_program' data' True w)) ^^ n) ?w1)
               = (Inr sm, ?w1\<lparr>trace := trace ?w1 @ replicate (Suc n) (Load ?p)\<rparr>)" for n
  proof -
    let ?wn = "?w1\<lparr>trace := trace ?w1 @ replicate n (Load ?p)\<rparr>"
    have it: "((\<lambda>w. snd (build_model stan dirname model' stan_program' data' True w)) ^^ n) ?w1 = ?wn"
      using build_model_hits[OF warm, where stan = stan and stan_program = stan_program' and data = data' and n = n] by (simp add: assms(4))
    have "cache ?wn (cache_file dirname (name model')) = Some (Inr sm)"
      by (simp add: assms(4))
    from build_model_hit[OF this, where stan = stan and stan_program = stan_program' and data = data']
    show ?thesis unfolding it by (simp add: assms(4) replicate_append_same)
  qed
  show ?thesis unfolding first using later by simp
qed

theorem build_model_cache_witness:
  "trace (snd (build_model
       \<lparr>build = (\<lambda>p d. Inr (length p)), sample_extract = (\<lambda>m d k. Inr ([] :: (string, int table) dict))\<rparr>
       ''src'' \<lparr>name = ''karlis'', modelfile = ''stan/karlis.stan'', parameters = [], team_parameters = [''attack'']\<rparr>
       ''model'' \<lparr>n_teams = 2, n_games = 0, home_team_col = [], away_team_col = [], home_goals_col = [], away_goals_col = []\<rparr>
       True \<lparr>texts = Map.empty, cache = Map.empty, dump_error = None, trace = []\<rparr>))
   = [Load ''src/../cache/karlis.pkl'', Compile, Store ''src/../cache/karlis.pkl'']
   \<and> build_model
       \<lparr>build = (\<lambda>p d. Inr (length p)), sample_extract = (\<lambda>m d k. Inr ([] :: (string, int table) dict))\<rparr>
       ''src'' \<lparr>name = ''karlis'', modelfile = ''stan/other.stan'', parameters = [], team_parameters = []\<rparr>
       ''changed model'' \<lparr>n_teams = 3, n_games = 0, home_team_col = [], away_team_col = [], home_goals_col = [], away_goals_col = []\<rparr>
       True
       (snd (build_model
         \<lparr>build = (\<lambda>p d. Inr (length p)), sample_extract = (\<lambda>m d k. Inr ([] :: (string, int table) dict))\<rparr>
         ''src'' \<lparr>name = ''karlis'', modelfile = ''stan/karlis.stan'', parameters = [], team_parameters = [''attack'']\<rparr>
         ''model'' \<lparr>n_teams = 2, n_games = 0, home_team_col = [], away_team_col = [], home_goals_col = [], away_goals_col = []\<rparr>
         True \<lparr>texts = Map.empty, cache = Map.empty, dump_error = None, trace = []\<rparr>))
     = (Inr 5,
        \<lparr>texts = Map.empty, cache = [''src/../cache/karlis.pkl'' \<mapsto> Inr 5], dump_error = None,
         trace = [Load ''src/../cache/karlis.pkl'', Compile, Store ''src/../cache/karlis.pkl'',
                  Load ''src/../cache/karlis.pkl'']\<rparr>)"
proof -
  let ?S = "\<lparr>build = (\<lambda>p d. Inr (length p)), sample_extract = (\<lambda>m d k. Inr ([] :: (string, int table) dict))\<rparr>
              :: (nat, int) stan"
  let ?M = "\<lparr>name = ''karlis'', modelfile = ''stan/karlis.stan'', parameters = [], team_parameters = [''attack'']\<rparr>"
  let ?M' = "\<lparr>name = ''karlis'', modelfile = ''stan/other.stan'', parameters = [], team_parameters = []\<rparr>"
  let ?D = "\<lparr>n_teams = 2, n_games = 0, home_team_col = [], away_team_col = [], home_goals_col = [], away_goals_col = []\<rparr>"
  let ?W = "\<lparr>texts = Map.empty, cache = Map.empty, dump_error = None, trace = []\<rparr> :: nat world"
  have p: "cache_file ''src'' ''karlis'' = ''src/../cache/karlis.pkl''"
    by (simp add: cache_file_def path_join_def)
  have 1: "cache ?W (cache_file ''src'' (name ?M)) = None" by simp
  have 2: "build ?S ''model'' ?D = Inr 5" by simp
  have 3: "dump_error ?W = None" by simp
  have 4: "name ?M' = name ?M" by simp
  note t = build_model_cache[OF 1 2 3 4]
  from t[THEN conjunct1] have a: "build_model ?S ''src'' ?M ''model'' ?D True ?W
      = (Inr 5, \<lparr>texts = Map.empty, cache = [''src/../cache/karlis.pkl'' \<mapsto> Inr 5], dump_error = None,
         trace = [Load ''src/../cache/karlis.pkl'', Compile, Store ''src/../cache/karlis.pkl'']\<rparr>)"
    by (simp add: p)
  from t[THEN conjunct2, THEN spec[where x = "0::nat"]] show ?thesis
    unfolding a by (simp add: p)
qed

text \<open>
  Claim C6. With \<open>use_cache\<close> true, when loading the file at the cache location raises
  anything but FileNotFoundError, \<open>build_model\<close> raises that exception; nothing is compiled
  and nothing is stored.
\<close>

theorem build_model_unreadable:
  assumes "cache w (cache_file dirname (name model)) = Some (Inl e)"
    and "e \<noteq> FileNotFoundError"
  shows "build_model stan dirname model stan_program data True w =
           (Inl e, w\<lparr>trace := trace w @ [Load (cache_file dirname (name model))]\<rparr>)
         \<and> count_list (trace (snd (build_model stan dirname model stan_program data True w))) Compile
             = count_list (trace w) Compile
         \<and> cache (snd (build_model stan dirname model stan_program data True w)) = cache w"
  using assms by (simp add: build_model_def joblib_load_def)

theorem build_model_unreadable_witness:
  "build_model
       \<lparr>build = (\<lambda>p d. Inr (length p)), sample_extract = (\<lambda>m d k. Inr ([] :: (string, int table) dict))\<rparr>
       ''src'' \<lparr>name = ''karlis'', modelfile = ''stan/karlis.stan'', parameters = [], team_parameters = [''attack'']\<rparr>
       ''model'' \<lparr>n_teams = 2, n_games = 0, home_team_col = [], away_team_col = [], home_goals_col = [], away_goals_col = []\<rparr>
       True
       \<lparr>texts = Map.empty, cache = [''src/../cache/karlis.pkl'' \<mapsto> Inl (Raised ''UnpicklingError'')],
         dump_error = None, trace = []\<rparr>
   = (Inl (Raised ''UnpicklingError''),
      \<lparr>texts = Map.empty, cache = [''src/../cache/karlis.pkl'' \<mapsto> Inl (Raised ''UnpicklingError'')],
        dump_error = None, trace = [Load ''src/../cache/karlis.pkl'']\<rparr>)"
proof -
  let ?S = "\<lparr>build = (\<lambda>p d. Inr (length p)), sample_extract = (\<lambda>m d k. Inr ([] :: (string, int table) dict))\<rparr>
              :: (nat, int) stan"
  let ?M = "\<lparr>name = ''karlis'', modelfile = ''stan/karlis.stan'', parameters = [], team_parameters = [''attack'']\<rparr>"
  let ?W = "\<lparr>texts = Map.empty, cache = [''src/../cache/karlis.pkl'' \<mapsto> Inl (Raised ''UnpicklingError'')],
         dump_error = None, trace = []\<rparr> :: nat world"
  have p: "cache_file ''src'' ''karlis'' = ''src/../cache/karlis.pkl''"
    by (simp add: cache_file_def path_join_def)
  have 1: "cache ?W (cache_file ''src'' (name ?M)) = Some (Inl (Raised ''UnpicklingError''))"
    by (simp add: p)
  have 2: "Raised ''UnpicklingError'' \<noteq> FileNotFoundError" by simp
  from build_model_unreadable[where stan = ?S, OF 1 2, THEN conjunct1] show ?thesis
    by (simp add: p)
qed

text \<open>
  Claim C7. With \<open>use_cache\<close> true and no file at the cache location, when compiling the
  program raises, \<open>build_model\<close> raises that exception, no store is started and there is
  still no file at the cache location.
\<close>

theorem build_model_compile_error:
  assumes "cache w (cache_file dirname (name model)) = None"
    and "build stan stan_program data = Inl e"
  shows "build_model stan dirname model stan_program data True w =
           (Inl e, w\<lparr>trace := trace w @ [Load (cache_file dirname (name model)), Compile]\<rparr>)
         \<and> cache (snd (build_model stan dirname model stan_program data True w)) = cache w
         \<and> cache (snd (build_model stan dirname model stan_program data True w))
               (cache_file dirname (name model)) = None"
  using assms by (simp add: build_model_def joblib_load_def stan_build_def)

theorem build_model_compile_error_witness:
  "build_model
       \<lparr>build = (\<lambda>p d. if p = ''model'' then Inr (5::nat) else Inl (Raised ''ValueError'')),
        sample_extract = (\<lambda>m d k. Inr ([] :: (string, int table) dict))\<rparr>
       ''src'' \<lparr>name = ''karlis'', modelfile = ''stan/karlis.stan'', parameters = [], team_parameters = [''attack'']\<rparr>
       ''modle'' \<lparr>n_teams = 2, n_games = 0, home_team_col = [], away_team_col = [], home_goals_col = [], away_goals_col = []\<rparr>
       True \<lparr>texts = Map.empty, cache = Map.empty, dump_error = None, trace = []\<rparr>
   = (Inl (Raised ''ValueError''),
      \<lparr>texts = Map.empty, cache = Map.empty, dump_error = None,
        trace = [Load ''src/../cache/karlis.pkl'', Compile]\<rparr>)"
proof -
  let ?S = "\<lparr>build = (\<lambda>p d. if p = ''model'' then Inr (5::nat) else Inl (Raised ''ValueError'')),
        sample_extract = (\<lambda>m d k. Inr ([] :: (string, int table) dict))\<rparr> :: (nat, int) stan"
  let ?M = "\<lparr>name = ''karlis'', modelfile = ''stan/karlis.stan'', parameters = [], team_parameters = [''attack'']\<rparr>"
  let ?D = "\<lparr>n_teams = 2, n_games = 0, home_team_col = [], away_team_col = [], home_goals_col = [], away_goals_col = []\<rparr>"
  let ?W = "\<lparr>texts = Map.empty, cache = Map.empty, dump_error = None, trace = []\<rparr> :: nat world"
  have p: "cache_file ''src'' ''karlis'' = ''src/../cache/karlis.pkl''"
    by (simp add: cache_file_def path_join_def)
  have 1: "cache ?W (cache_file ''src'' (name ?M)) = None" by simp
  have 2: "build ?S ''modle'' ?D = Inl (Raised ''ValueError'')" by simp
  from build_model_compile_error[OF 1 2, THEN conjunct1] show ?thesis
    by (simp add: p)
qed



section \<open>Tidying the output\<close>

lemma column_labels_Inr:
  "column_labels rm ids = Inr ls \<Longrightarrow>
     length ls = length ids \<and> (\<forall>j < length ids. map_of rm (ids ! j + 1) = Some (ls ! j))"
proof (induction ids arbitrary: ls)
  case Nil
  then show ?case by simp
next
  case (Cons i ids)
  from Cons.prems obtain l ls' where
    l: "map_of rm (i + 1) = Some l" and ls': "column_labels rm ids = Inr ls'" and ls: "ls = l # ls'"
    by (auto simp: getitem_def split: option.splits sum.splits)
  from Cons.IH[OF ls'] have
    len: "length ls' = length ids" and nth: "\<forall>j < length ids. map_of rm (ids ! j + 1) = Some (ls' ! j)"
    by simp_all
  show ?case
  proof (intro conjI allI impI)
    show "length ls = length (i # ids)" by (simp add: ls len)
  next
    fix j assume "j < length (i # ids)"
    then show "map_of rm ((i # ids) ! j + 1) = Some (ls ! j)"
      using l nth by (cases j) (simp_all add: ls)
  qed
qed

lemma relabel_Inr:
  assumes "relabel rm t = Inr t'"
  shows "\<exists>cols. t' = Frame cols (values_of t) \<and> length cols = ncols t
           \<and> (\<forall>j < length cols. map_of rm (int j + 1) = Some (cols ! j))"
proof (cases t)
  case (Array k rows)
  with assms obtain ls where ls: "column_labels rm (map int [0..<k]) = Inr ls" and t': "t' = Frame ls rows"
    by (auto simp: relabel_def split: sum.splits)
  from column_labels_Inr[OF ls] show ?thesis by (simp add: Array t')
next
  case (Frame cols rows)
  with assms show ?thesis by (auto simp: relabel_def split: if_splits)
qed

lemma tidy_columns:
  assumes "tidy rm tps out = Inr out'" and "param \<in> set tps"
  shows "\<exists>t cols. map_of out param = Some t
           \<and> map_of out' param = Some (Frame cols (values_of t))
           \<and> length cols = ncols t
           \<and> (\<forall>j < length cols. map_of rm (int j + 1) = Some (cols ! j))"
  using assms
proof (induction tps arbitrary: out)
  case Nil
  then show ?case by simp
next
  case (Cons p ps)
  from Cons.prems(1) obtain t df where
    t: "map_of out p = Some t" and df: "relabel rm t = Inr df"
    and rest: "tidy rm ps (AList.update p df out) = Inr out'"
    by (auto simp: getitem_def split: option.splits sum.splits)
  from relabel_Inr[OF df] obtain cols0 where
    df_eq: "df = Frame cols0 (values_of t)" and len0: "length cols0 = ncols t"
    and nth0: "\<forall>j < length cols0. map_of rm (int j + 1) = Some (cols0 ! j)"
    by blast
  have upd: "map_of (AList.update p df out) = (map_of out)(p \<mapsto> df)"
    by (rule update_conv')
  show ?case
  proof (cases "param \<in> set ps")
    case True
    from Cons.IH[OF rest True] obtain t1 cols where
      t1: "map_of (AList.update p df out) param = Some t1"
      and out: "map_of out' param = Some (Frame cols (values_of t1))"
      and len: "length cols = ncols t1"
      and nth: "\<forall>j < length cols. map_of rm (int j + 1) = Some (cols ! j)"
      by blast
    show ?thesis
    proof (cases "param = p")
      case True
      with t1 have "t1 = df" by (simp add: upd)
      then have "values_of t1 = values_of t" "ncols t1 = ncols t" by (simp_all add: df_eq len0)
      with out len nth t True show ?thesis by auto
    next
      case False
      with t1 have "map_of out param = Some t1" by (simp add: upd)
      with out len nth show ?thesis by auto
    qed
  next
    case False
    with Cons.prems(2) have pp: "param = p" by simp
    have keep: "tidy rm ps d = Inr d' \<Longrightarrow> param \<notin> set ps \<Longrightarrow> map_of d' param = map_of d param" for d d'
    proof (induction ps arbitrary: d)
      case Nil
      then show ?case by simp
    next
      case (Cons q qs)
      from Cons.prems(1) obtain tq dq where
        "tidy rm qs (AList.update q dq d) = Inr d'"
        by (auto simp: getitem_def split: option.splits sum.splits)
      from Cons.IH[OF this] Cons.prems(2) show ?case by (simp add: update_conv')
    qed
    from keep[OF rest False] have "map_of out' param = Some df" by (simp add: upd pp)
    with t df_eq len0 nth0 pp show ?thesis by auto
  qed
qed

lemma fold_update_lookup:
  "map_of (fold (\<lambda>(k, v) d. AList.update k v d) kvs d) k = Some v \<Longrightarrow>
     (k, v) \<in> set kvs \<or> map_of d k = Some v"
proof (induction kvs arbitrary: d)
  case Nil
  then show ?case by simp
next
  case (Cons p kvs)
  obtain k' v' where p: "p = (k', v')" by (cases p)
  from Cons.prems have "map_of (fold (\<lambda>(k, v) d. AList.update k v d) kvs (AList.update k' v' d)) k = Some v"
    by (simp add: p)
  from Cons.IH[OF this] show ?case
    by (auto simp: p update_conv' split: if_splits)
qed

lemma reverse_of_lookup:
  "map_of (reverse_of team_map) i = Some l \<Longrightarrow> (l, i) \<in> set team_map"
  unfolding reverse_of_def dict_of_def items_def
  by (drule fold_update_lookup) auto

lemma stan_map_pair:
  "(l, i) \<in> set (stan_map L) \<longleftrightarrow>
     (\<exists>j < length (np_unique L). l = np_unique L ! j \<and> i = 1 + int j)"
  by (auto simp: stan_map_zip in_set_zip)

lemma np_unique_sorted_list: "np_unique L = sorted_list_of_set (set L)"
  by (simp add: np_unique_def sorted_list_of_set_sort_remdups)

lemma tidy_stan_map_take:
  assumes "tidy (reverse_of (stan_map L)) tps out = Inr out'"
    and "param \<in> set tps"
    and "map_of out param = Some (Array k rows)"
  shows "\<exists>cols. map_of out' param = Some (Frame cols rows)
           \<and> k \<le> length (np_unique L) \<and> cols = take k (np_unique L)"
proof -
  let ?us = "np_unique L"
  from tidy_columns[OF assms(1,2)] assms(3) obtain cols where
    out': "map_of out' param = Some (Frame cols rows)" and len: "length cols = k"
    and nth: "\<forall>j < length cols. map_of (reverse_of (stan_map L)) (int j + 1) = Some (cols ! j)"
    by auto
  have col: "j < length ?us \<and> cols ! j = ?us ! j" if "j < k" for j
  proof -
    from nth that len have "(cols ! j, int j + 1) \<in> set (stan_map L)"
      using reverse_of_lookup by blast
    then show ?thesis by (auto simp: stan_map_pair)
  qed
  have k_le: "k \<le> length ?us"
  proof (cases k)
    case 0
    then show ?thesis by simp
  next
    case (Suc k')
    then have "k' < length ?us" using col[of k'] by simp
    with Suc show ?thesis by simp
  qed
  have "cols = take k ?us"
    by (rule nth_equalityI) (use len k_le col in auto)
  with out' k_le show ?thesis by blast
qed

text \<open>
  Claim C8. With the \<open>team_map\<close> that \<open>stan_map\<close> built from the labels \<open>L\<close>, every column
  label of a tidied team parameter is one of the labels; and when the sampled array has
  one column for each team, that is \<open>n_teams = len(team_map)\<close> columns, the tidied table
  has as many columns as there are distinct labels, each label on one column.
\<close>

theorem tidy_column_labels:
  assumes "tidy (reverse_of (stan_map L)) tps out = Inr out'"
    and "param \<in> set tps"
    and "map_of out param = Some (Array k rows)"
  shows "\<exists>cols. map_of out' param = Some (Frame cols rows)
           \<and> set cols \<subseteq> set L
           \<and> set cols \<subseteq> dom (map_of (stan_map L))
           \<and> (int k = len (stan_map L) \<longrightarrow>
                 length cols = card (set L) \<and> set cols = set L \<and> distinct cols)"
proof -
  let ?us = "np_unique L"
  from tidy_stan_map_take[OF assms] obtain cols where
    out': "map_of out' param = Some (Frame cols rows)"
    and k_le: "k \<le> length ?us" and cols: "cols = take k ?us"
    by blast
  have "set cols \<subseteq> set ?us" unfolding cols by (rule set_take_subset)
  then have sub: "set cols \<subseteq> set L" by (simp add: np_unique_props)
  have full: "length cols = card (set L) \<and> set cols = set L \<and> distinct cols"
    if "int k = len (stan_map L)"
  proof -
    from that have "k = length ?us" by (simp add: len_def stan_map_length np_unique_length)
    then have "cols = ?us" by (simp add: cols)
    then show ?thesis by (simp add: np_unique_props np_unique_length)
  qed
  from out' sub full show ?thesis by (auto simp: stan_map_dom)
qed

text \<open>
  Claim C10. With the \<open>team_map\<close> that \<open>stan_map\<close> built, the column at position \<open>i\<close> of a
  tidied team parameter is labelled with the one label whose identifier is \<open>i + 1\<close>, so
  the labels are the first labels in sorted order, strictly increasing.
\<close>

theorem tidy_column_order:
  assumes "tidy (reverse_of (stan_map L)) tps out = Inr out'"
    and "param \<in> set tps"
    and "map_of out param = Some (Array k rows)"
  shows "\<exists>cols. map_of out' param = Some (Frame cols rows)
           \<and> length cols = k
           \<and> (\<forall>i < k. map_of (stan_map L) (cols ! i) = Some (int i + 1)
                  \<and> (\<forall>l. map_of (stan_map L) l = Some (int i + 1) \<longrightarrow> l = cols ! i))
           \<and> cols = take k (sorted_list_of_set (set L))
           \<and> sorted_wrt (<) cols"
proof -
  let ?us = "np_unique L"
  from tidy_columns[OF assms(1,2)] assms(3) obtain cols where
    out': "map_of out' param = Some (Frame cols rows)" and len: "length cols = k"
    and nth: "\<forall>j < length cols. map_of (reverse_of (stan_map L)) (int j + 1) = Some (cols ! j)"
    by auto
  have col: "j < length ?us \<and> cols ! j = ?us ! j" if "j < k" for j
  proof -
    from nth that len have "(cols ! j, int j + 1) \<in> set (stan_map L)"
      using reverse_of_lookup by blast
    then show ?thesis by (auto simp: stan_map_pair)
  qed
  have k_le: "k \<le> length ?us"
  proof (cases k)
    case 0
    then show ?thesis by simp
  next
    case (Suc k')
    then have "k' < length ?us" using col[of k'] by simp
    with Suc show ?thesis by simp
  qed
  have cols: "cols = take k ?us"
    by (rule nth_equalityI) (use len k_le col in auto)
  have one: "map_of (stan_map L) (cols ! i) = Some (int i + 1)
               \<and> (\<forall>l. map_of (stan_map L) l = Some (int i + 1) \<longrightarrow> l = cols ! i)" if "i < k" for i
  proof -
    from col[OF that] have i: "i < length ?us" and ci: "cols ! i = ?us ! i" by simp_all
    have "map_of (stan_map L) (cols ! i) = Some (int i + 1)"
      using stan_map_lookup[OF i] by (simp add: ci)
    moreover have "l = cols ! i" if "map_of (stan_map L) l = Some (int i + 1)" for l
    proof -
      from that have "(l, int i + 1) \<in> set (stan_map L)" by (rule map_of_SomeD)
      then show ?thesis by (auto simp: stan_map_pair ci)
    qed
    ultimately show ?thesis by blast
  qed
  have "sorted_wrt (<) ?us"
    using np_unique_props(1,2)[of L] by (simp add: strict_sorted_iff)
  then have "sorted_wrt (<) cols" unfolding cols by (rule sorted_wrt_take)
  with out' len one cols show ?thesis
    by (simp add: np_unique_sorted_list)
qed

theorem tidy_column_labels_witness:
  "tidy (reverse_of (stan_map [''Leeds'', ''Arsenal'', ''Leeds''])) [''attack'', ''defence'']
        [(''attack'', Array 2 [[3, 1], [4, 2 :: int]]), (''home'', Array 1 [[5], [6]]),
         (''defence'', Array 2 [[7, 9], [8, 0]])]
   = Inr [(''attack'', Frame [''Arsenal'', ''Leeds''] [[3, 1], [4, 2]]), (''home'', Array 1 [[5], [6]]),
          (''defence'', Frame [''Arsenal'', ''Leeds''] [[7, 9], [8, 0]])]
   \<and> int 2 = len (stan_map [''Leeds'', ''Arsenal'', ''Leeds''])
   \<and> length [''Arsenal'', ''Leeds''] = card (set [''Leeds'', ''Arsenal'', ''Leeds''])
   \<and> set [''Arsenal'', ''Leeds''] = set [''Leeds'', ''Arsenal'', ''Leeds'']"
proof -
  have t: "tidy (reverse_of (stan_map [''Leeds'', ''Arsenal'', ''Leeds''])) [''attack'', ''defence'']
        [(''attack'', Array 2 [[3, 1], [4, 2 :: int]]), (''home'', Array 1 [[5], [6]]),
         (''defence'', Array 2 [[7, 9], [8, 0]])]
   = Inr [(''attack'', Frame [''Arsenal'', ''Leeds''] [[3, 1], [4, 2]]), (''home'', Array 1 [[5], [6]]),
          (''defence'', Frame [''Arsenal'', ''Leeds''] [[7, 9], [8, 0]])]"
    by code_simp
  have p: "''defence'' \<in> set [''attack'', ''defence'']" by simp
  have a: "map_of [(''attack'', Array 2 [[3, 1], [4, 2 :: int]]), (''home'', Array 1 [[5], [6]]),
         (''defence'', Array 2 [[7, 9], [8, 0]])] ''defence'' = Some (Array 2 [[7, 9], [8, 0]])"
    by simp
  have n: "int 2 = len (stan_map [''Leeds'', ''Arsenal'', ''Leeds''])" by code_simp
  from tidy_column_labels[OF t p a] obtain cols where
    c: "map_of [(''attack'', Frame [''Arsenal'', ''Leeds''] [[3, 1], [4, 2 :: int]]),
                (''home'', Array 1 [[5], [6]]),
                (''defence'', Frame [''Arsenal'', ''Leeds''] [[7, 9], [8, 0]])] ''defence''
          = Some (Frame cols [[7, 9], [8, 0]])"
    and f: "int 2 = len (stan_map [''Leeds'', ''Arsenal'', ''Leeds'']) \<longrightarrow>
              length cols = card (set [''Leeds'', ''Arsenal'', ''Leeds''])
              \<and> set cols = set [''Leeds'', ''Arsenal'', ''Leeds''] \<and> distinct cols"
    by blast
  from c have cols: "cols = [''Arsenal'', ''Leeds'']" by simp
  from f n have "length cols = card (set [''Leeds'', ''Arsenal'', ''Leeds''])
              \<and> set cols = set [''Leeds'', ''Arsenal'', ''Leeds''] \<and> distinct cols"
    by (rule mp)
  then have "length [''Arsenal'', ''Leeds''] = card (set [''Leeds'', ''Arsenal'', ''Leeds''])
              \<and> set [''Arsenal'', ''Leeds''] = set [''Leeds'', ''Arsenal'', ''Leeds'']"
    unfolding cols by blast
  with t n show ?thesis by blast
qed

theorem tidy_column_order_witness:
  "tidy (reverse_of (stan_map [''Leeds'', ''Chelsea'', ''Arsenal''])) [''attack'']
        [(''attack'', Array 3 [[3, 1, 2 :: int]])]
   = Inr [(''attack'', Frame [''Arsenal'', ''Chelsea'', ''Leeds''] [[3, 1, 2]])]
   \<and> [''Arsenal'', ''Chelsea'', ''Leeds''] = take 3 (sorted_list_of_set (set [''Leeds'', ''Chelsea'', ''Arsenal'']))
   \<and> sorted_wrt (<) [''Arsenal'', ''Chelsea'', ''Leeds'']"
proof -
  have t: "tidy (reverse_of (stan_map [''Leeds'', ''Chelsea'', ''Arsenal''])) [''attack'']
        [(''attack'', Array 3 [[3, 1, 2 :: int]])]
   = Inr [(''attack'', Frame [''Arsenal'', ''Chelsea'', ''Leeds''] [[3, 1, 2]])]"
    by code_simp
  have p: "''attack'' \<in> set [''attack'']" by simp
  have a: "map_of [(''attack'', Array 3 [[3, 1, 2 :: int]])] ''attack'' = Some (Array 3 [[3, 1, 2]])"
    by simp
  from tidy_column_order[OF t p a] t show ?thesis by auto
qed


end
